theory Spec2Isabelle
  imports Main
begin

section \<open>Strings\<close>

text \<open>
  JavaScript strings are modelled as \<^typ>\<open>string\<close>: a list of code units below 256
  (ASCII and Latin-1). The three built-ins the sources use are written out on that
  range: \<open>toLowerCase\<close>, \<open>includes\<close> and \<open>trim\<close>.
\<close>

definition lower_char :: "char \<Rightarrow> char" where
  "lower_char c =
     (let n = (of_char c :: nat) in
      if 65 \<le> n \<and> n \<le> 90 then char_of (n + 32)
      else if 192 \<le> n \<and> n \<le> 222 \<and> n \<noteq> 215 then char_of (n + 32)
      else c)"

definition toLowerCase :: "string \<Rightarrow> string" where
  "toLowerCase s = map lower_char s"

text \<open>\<open>startsWith s t\<close>: \<open>t\<close> is an initial segment of \<open>s\<close>.\<close>

fun startsWith :: "string \<Rightarrow> string \<Rightarrow> bool" where
  "startsWith s [] = True"
| "startsWith [] (c # t) = False"
| "startsWith (d # s) (c # t) = (d = c \<and> startsWith s t)"

text \<open>\<open>includes_str s t\<close> is \<open>s.includes(t)\<close>: \<open>t\<close> occurs in \<open>s\<close> as a contiguous run.\<close>

fun includes_str :: "string \<Rightarrow> string \<Rightarrow> bool" where
  "includes_str [] t = (t = [])"
| "includes_str (d # s) t = (startsWith (d # s) t \<or> includes_str s t)"

definition is_whitespace :: "char \<Rightarrow> bool" where
  "is_whitespace c =
     (let n = (of_char c :: nat) in (9 \<le> n \<and> n \<le> 13) \<or> n = 32 \<or> n = 160)"

definition trim :: "string \<Rightarrow> string" where
  "trim s = rev (dropWhile is_whitespace (rev (dropWhile is_whitespace s)))"

text \<open>JavaScript truthiness of a string: the empty string is falsy.\<close>

definition truthy :: "string \<Rightarrow> bool" where
  "truthy s = (s \<noteq> [])"

section \<open>The evaluation service (services/geminiService.ts)\<close>

record VoiceQuestion =
  question :: string
  answer :: string

record EvalResult =
  isCorrect :: bool
  feedback :: string

text \<open>
  \<open>API_KEY\<close> is \<open>string | undefined\<close>: \<open>None\<close> is \<open>undefined\<close>. The test
  \<open>!API_KEY\<close> holds for \<open>undefined\<close> and for the empty string.
\<close>

definition no_key :: "string option \<Rightarrow> bool" where
  "no_key API_KEY = (case API_KEY of None \<Rightarrow> True | Some k \<Rightarrow> \<not> truthy k)"

text \<open>The template literal that \<open>evaluateSpokenAnswer\<close> sends, line breaks included.\<close>

definition evaluation_prompt :: "string \<Rightarrow> string \<Rightarrow> string \<Rightarrow> string" where
  \<open>evaluation_prompt q correctAnswer spokenAnswer =
     ''Question: "'' @ q @ ''"'' @ [CHR 0x0A] @
     ''    Correct Answer: "'' @ correctAnswer @ ''"'' @ [CHR 0x0A] @
     ''    User's Spoken Answer: "'' @ spokenAnswer @ ''"'' @ [CHR 0x0A] @
     ''    '' @ [CHR 0x0A] @
     ''    Is the user's spoken answer correct? Be flexible with minor variations (e.g., 'forty five' vs '45', extra words like 'the answer is...'). Respond in JSON format with two keys: "isCorrect" (boolean) and "feedback" (a brief string explaining why, or just confirming correctness).''\<close>

definition unavailable :: EvalResult where
  "unavailable = \<lparr>isCorrect = False, feedback = ''AI evaluation is unavailable.''\<rparr>"

definition fallback_feedback :: "string \<Rightarrow> string" where
  \<open>fallback_feedback correctAnswer =
     ''Sorry, an error occurred during evaluation. The expected answer is similar to "''
       @ correctAnswer @ ''".''\<close>

text \<open>
  \<open>evaluateSpokenAnswer\<close>. The external service is the parameter \<open>generateContent\<close>:
  given the prompt it yields the parsed JSON result, or \<open>None\<close> when anything inside
  the \<open>try\<close> block throws (the request, reading \<open>response.text\<close>, \<open>JSON.parse\<close>).
  The \<open>catch\<close> block is the local fallback.
\<close>

definition evaluateSpokenAnswer ::
  "string option \<Rightarrow> (string \<Rightarrow> EvalResult option) \<Rightarrow> string \<Rightarrow> string \<Rightarrow> string \<Rightarrow> EvalResult" where
  "evaluateSpokenAnswer API_KEY generateContent q correctAnswer spokenAnswer =
     (if no_key API_KEY then unavailable
      else case generateContent (evaluation_prompt q correctAnswer spokenAnswer) of
             Some result \<Rightarrow> result
           | None \<Rightarrow>
               if includes_str (toLowerCase spokenAnswer) (toLowerCase correctAnswer)
               then \<lparr>isCorrect = True, feedback = ''Correct!''\<rparr>
               else \<lparr>isCorrect = False, feedback = fallback_feedback correctAnswer\<rparr>)"

text \<open>
  \<open>generateVoiceTestQuestions\<close>: the empty array without a key or when the \<open>try\<close> block
  throws, the parsed array otherwise. The generator service is the parameter
  \<open>generateContent\<close>, applied to the request built from topic, difficulty and count.
\<close>

definition generateVoiceTestQuestions ::
  "string option \<Rightarrow> (string \<times> string \<times> int \<Rightarrow> VoiceQuestion list option)
     \<Rightarrow> string \<Rightarrow> string \<Rightarrow> int \<Rightarrow> VoiceQuestion list" where
  "generateVoiceTestQuestions API_KEY generateContent topic difficulty count =
     (if no_key API_KEY then []
      else case generateContent (topic, difficulty, count) of
             Some questions \<Rightarrow> questions
           | None \<Rightarrow> [])"

section \<open>The voice test component (components/VoiceTest.tsx)\<close>

datatype TestPhase = Setup | Loading | InProgress | Evaluating | Finished

text \<open>
  Everything the component does to the outside, and every \<open>setPhase\<close>, is appended to a
  trace, so that "was the evaluator called" and "which phases were passed through" are
  questions about a list.
\<close>

datatype effect =
    SetPhase TestPhase
  | GenerateQuestions string string int
  | Evaluate string string string
  | RecognitionStart
  | RecognitionStop
  | SynthesisCancel
  | SynthesisSpeak string
  | SetInterval nat
  | ClearInterval nat
  | Alert string

text \<open>
  The component's \<open>useState\<close> cells and refs, followed by the part of the browser the
  handlers act on:
  \<^item> \<open>recognitionRef\<close> is \<open>True\<close> when the initialisation effect found a
    \<open>SpeechRecognition\<close> constructor and stored a recognizer;
  \<^item> \<open>questionsVersion\<close> is the identity of the \<open>questions\<close> array (every
    \<open>setQuestions\<close> stores a fresh array);
  \<^item> \<open>intervals\<close> are the live \<open>setInterval\<close> timers, each with the value of
    \<open>isListening\<close> that its callback closed over (\<open>handleTimeUp\<close> is memoised on
    \<open>isListening\<close>);
  \<^item> \<open>utterance\<close> is the utterance being spoken, with the \<open>isListening\<close> that its
    \<open>onend\<close> handler closed over through \<open>startTimer\<close>;
  \<^item> \<open>pendingGenerations\<close> and \<open>pendingEvaluations\<close> count the promises awaited
    by \<open>startTest\<close> and \<open>handleAnswerSubmission\<close>.
\<close>

record session =
  topic :: string
  difficulty :: string
  questionCount :: int
  phase :: TestPhase
  questions :: "VoiceQuestion list"
  questionsVersion :: nat
  currentQuestionIndex :: nat
  score :: int
  showConfirmEndModal :: bool
  isListening :: bool
  transcript :: string
  isTranscriptFinal :: bool
  evaluationResult :: "EvalResult option"
  timeLeft :: int
  timerIntervalRef :: "nat option"
  recognitionRef :: bool
  intervals :: "(nat \<times> bool) list"
  nextIntervalId :: nat
  utterance :: "bool option"
  pendingGenerations :: nat
  pendingEvaluations :: nat
  trace :: "effect list"

definition QUESTION_TIME_LIMIT :: int where
  "QUESTION_TIME_LIMIT = 30"

text \<open>The state after mounting. \<open>setInterval\<close> hands out identifiers from 1.\<close>

definition initial :: "bool \<Rightarrow> session" where
  "initial supported =
     \<lparr>topic = ''Quantitative Aptitude'', difficulty = ''Medium'', questionCount = 5,
      phase = Setup, questions = [], questionsVersion = 0, currentQuestionIndex = 0,
      score = 0, showConfirmEndModal = False, isListening = False, transcript = [],
      isTranscriptFinal = False, evaluationResult = None,
      timeLeft = QUESTION_TIME_LIMIT, timerIntervalRef = None,
      recognitionRef = supported, intervals = [], nextIntervalId = 1, utterance = None,
      pendingGenerations = 0, pendingEvaluations = 0, trace = []\<rparr>"

definition emit :: "effect \<Rightarrow> session \<Rightarrow> session" where
  "emit e s = s\<lparr>trace := trace s @ [e]\<rparr>"

definition setPhase :: "TestPhase \<Rightarrow> session \<Rightarrow> session" where
  "setPhase p s = emit (SetPhase p) (s\<lparr>phase := p\<rparr>)"

text \<open>\<open>stopTimer\<close>: the test \<open>if (timerIntervalRef.current)\<close> is false for \<open>null\<close> and for 0.\<close>

definition stopTimer :: "session \<Rightarrow> session" where
  "stopTimer s =
     (case timerIntervalRef s of
        None \<Rightarrow> s
      | Some i \<Rightarrow>
          if i = 0 then s
          else emit (ClearInterval i)
                 (s\<lparr>intervals := filter (\<lambda>t. fst t \<noteq> i) (intervals s),
                    timerIntervalRef := None\<rparr>))"

definition timeUpResult :: EvalResult where
  \<open>timeUpResult = \<lparr>isCorrect = False, feedback = ''Time's up! You need to be quicker.''\<rparr>\<close>

text \<open>\<open>handleTimeUp\<close>, with the \<open>isListening\<close> of its closure as first argument.\<close>

definition handleTimeUp :: "bool \<Rightarrow> session \<Rightarrow> session" where
  "handleTimeUp listening s =
     (let s1 = stopTimer s;
          s2 = (if recognitionRef s1 \<and> listening then emit RecognitionStop s1 else s1);
          s3 = setPhase Evaluating s2;
          s4 = s3\<lparr>evaluationResult := Some timeUpResult\<rparr>
      in setPhase InProgress s4)"

text \<open>\<open>startTimer\<close>, with the \<open>isListening\<close> that the new interval's callback closes over.\<close>

definition startTimer :: "bool \<Rightarrow> session \<Rightarrow> session" where
  "startTimer listening s =
     (let s1 = stopTimer s; i = nextIntervalId s1
      in emit (SetInterval i)
           (s1\<lparr>timeLeft := QUESTION_TIME_LIMIT,
               intervals := intervals s1 @ [(i, listening)],
               nextIntervalId := Suc i,
               timerIntervalRef := Some i\<rparr>))"

text \<open>The interval's callback: the updater passed to \<open>setTimeLeft\<close>.\<close>

definition interval_callback :: "bool \<Rightarrow> session \<Rightarrow> session" where
  "interval_callback listening s =
     (if timeLeft s \<le> 1 then (handleTimeUp listening s)\<lparr>timeLeft := 0\<rparr>
      else s\<lparr>timeLeft := timeLeft s - 1\<rparr>)"

text \<open>
  \<open>handleAnswerSubmission\<close> up to its \<open>await\<close>. Reading \<open>.question\<close> of an undefined
  \<open>currentQuestion\<close> throws, which rejects the promise after the first two statements.
  The recognizer held in \<open>recognitionRef\<close> is rebuilt whenever \<open>questions\<close> or
  \<open>currentQuestionIndex\<close> change, so its handler reads their current values.
\<close>

definition handleAnswerSubmission :: "string \<Rightarrow> session \<Rightarrow> session" where
  "handleAnswerSubmission spokenAnswer s =
     (let s1 = setPhase Evaluating (stopTimer s)
      in if currentQuestionIndex s1 < length (questions s1)
         then let currentQuestion = questions s1 ! currentQuestionIndex s1
              in emit (Evaluate (question currentQuestion) (answer currentQuestion) spokenAnswer)
                   (s1\<lparr>pendingEvaluations := Suc (pendingEvaluations s1)\<rparr>)
         else s1)"

text \<open>The rest of \<open>handleAnswerSubmission\<close>, once the evaluator's promise has resolved.\<close>

definition handleAnswerSubmission_resume :: "EvalResult \<Rightarrow> session \<Rightarrow> session" where
  "handleAnswerSubmission_resume result s =
     (let s1 = s\<lparr>evaluationResult := Some result\<rparr>;
          s2 = (if isCorrect result then s1\<lparr>score := score s1 + 1\<rparr> else s1)
      in setPhase InProgress s2)"

text \<open>
  \<open>recognition.onresult\<close>. The argument lists \<open>event.results\<close> from \<open>resultIndex\<close> on,
  each entry as (\<open>isFinal\<close>, transcript of the first alternative).
\<close>

definition recognition_onresult :: "(bool \<times> string) list \<Rightarrow> session \<Rightarrow> session" where
  "recognition_onresult results s =
     (let finalTranscript = concat (map snd (filter fst results));
          interimTranscript = concat (map snd (filter (\<lambda>r. \<not> fst r) results));
          s1 = s\<lparr>transcript := (if truthy finalTranscript then finalTranscript
                                 else interimTranscript),
                 isTranscriptFinal := truthy finalTranscript\<rparr>
      in if truthy finalTranscript then handleAnswerSubmission (trim finalTranscript) s1
         else s1)"

definition synthesis_cancel :: "session \<Rightarrow> session" where
  "synthesis_cancel s = emit SynthesisCancel (s\<lparr>utterance := None\<rparr>)"

text \<open>\<open>speak\<close>: cancel, then speak an utterance whose \<open>onend\<close> calls \<open>startTimer\<close>.\<close>

definition speak :: "string \<Rightarrow> session \<Rightarrow> session" where
  "speak text s =
     emit (SynthesisSpeak text) ((synthesis_cancel s)\<lparr>utterance := Some (isListening s)\<rparr>)"

text \<open>\<open>startTest\<close> up to its \<open>await\<close>, and the rest once the questions have arrived.\<close>

definition startTest :: "session \<Rightarrow> session" where
  "startTest s =
     emit (GenerateQuestions (topic s) (difficulty s) (questionCount s))
       ((setPhase Loading s)\<lparr>pendingGenerations := Suc (pendingGenerations s)\<rparr>)"

definition startTest_resume :: "VoiceQuestion list \<Rightarrow> session \<Rightarrow> session" where
  "startTest_resume fetchedQuestions s =
     (if length fetchedQuestions > 0
      then setPhase InProgress
             (s\<lparr>questions := fetchedQuestions,
                questionsVersion := Suc (questionsVersion s),
                currentQuestionIndex := 0,
                score := 0,
                transcript := [],
                isTranscriptFinal := False,
                evaluationResult := None\<rparr>)
      else setPhase Setup (emit (Alert ''Failed to generate questions. Please try again.'') s))"

definition toggleListening :: "session \<Rightarrow> session" where
  "toggleListening s =
     (if \<not> recognitionRef s \<or> isListening s \<or> evaluationResult s \<noteq> None \<or> timeLeft s = 0
      then s
      else emit RecognitionStart
             (synthesis_cancel
                (s\<lparr>transcript := [], isTranscriptFinal := False, evaluationResult := None\<rparr>)))"

definition goToNextQuestion :: "session \<Rightarrow> session" where
  "goToNextQuestion s =
     (let s1 = stopTimer
                 (s\<lparr>transcript := [], isTranscriptFinal := False, evaluationResult := None\<rparr>)
      in if currentQuestionIndex s1 + 1 < length (questions s1)
         then s1\<lparr>currentQuestionIndex := currentQuestionIndex s1 + 1\<rparr>
         else setPhase Finished s1)"

definition retryQuestion :: "session \<Rightarrow> session" where
  "retryQuestion s =
     (let s1 = startTimer (isListening s)
                 (s\<lparr>transcript := [], isTranscriptFinal := False, evaluationResult := None\<rparr>)
      in if recognitionRef s1 \<and> \<not> isListening s1 then emit RecognitionStart s1 else s1)"

definition endTest :: "session \<Rightarrow> session" where
  "endTest s = setPhase Finished ((stopTimer s)\<lparr>showConfirmEndModal := False\<rparr>)"

definition resetToSetup :: "session \<Rightarrow> session" where
  "resetToSetup s =
     (let s1 = setPhase Setup (stopTimer (synthesis_cancel s))
      in s1\<lparr>currentQuestionIndex := 0,
            score := 0,
            questions := [],
            questionsVersion := Suc (questionsVersion s1),
            transcript := [],
            isTranscriptFinal := False,
            evaluationResult := None\<rparr>)"

subsection \<open>What is on screen\<close>

text \<open>
  The render function returns early for \<open>setup\<close>, \<open>loading\<close> and \<open>finished\<close>; the
  question screen is what is left. The buttons below exist only under these conditions.
\<close>

definition question_screen :: "session \<Rightarrow> bool" where
  "question_screen s = (phase s = InProgress \<or> phase s = Evaluating)"

definition mic_enabled :: "session \<Rightarrow> bool" where
  "mic_enabled s =
     (question_screen s \<and>
      \<not> (isListening s \<or> phase s = Evaluating \<or> evaluationResult s \<noteq> None \<or> timeLeft s = 0))"

definition next_visible :: "session \<Rightarrow> bool" where
  "next_visible s = (question_screen s \<and> evaluationResult s \<noteq> None)"

definition retry_visible :: "session \<Rightarrow> bool" where
  "retry_visible s =
     (question_screen s \<and>
      (case evaluationResult s of None \<Rightarrow> False | Some r \<Rightarrow> \<not> isCorrect r \<and> timeLeft s > 0))"

subsection \<open>The auto-speak effect\<close>

text \<open>
  After a render React runs the effect again when one of its dependencies
  \<open>[currentQuestionIndex, phase, questions, speak, evaluationResult]\<close> differs from the
  previous render. \<open>speak\<close> is memoised on \<open>startTimer\<close>, that on \<open>handleTimeUp\<close>, and
  that on \<open>isListening\<close>, so \<open>speak\<close> is a new function exactly when \<open>isListening\<close>
  changed. A fresh \<open>evaluationResult\<close> object with the old contents also counts as a
  change, but then the effect's own condition \<open>!evaluationResult\<close> is false. Reading
  \<open>.question\<close> of an entry that does not exist throws, and nothing is spoken.
\<close>

definition speak_deps_changed :: "session \<Rightarrow> session \<Rightarrow> bool" where
  "speak_deps_changed old new =
     (currentQuestionIndex old \<noteq> currentQuestionIndex new \<or>
      phase old \<noteq> phase new \<or>
      questionsVersion old \<noteq> questionsVersion new \<or>
      isListening old \<noteq> isListening new \<or>
      evaluationResult old \<noteq> evaluationResult new)"

definition auto_speak :: "session \<Rightarrow> session \<Rightarrow> session" where
  "auto_speak old new =
     (if speak_deps_changed old new \<and> phase new = InProgress \<and> length (questions new) > 0
         \<and> evaluationResult new = None \<and> currentQuestionIndex new < length (questions new)
      then speak (question (questions new ! currentQuestionIndex new)) new
      else new)"

subsection \<open>Events\<close>

text \<open>
  One event is one run of a handler to completion (state updates are batched), followed
  by the render and its effect. Clicks are possible only on buttons that are on screen.
  A timer tick needs its interval to be live, the end of an utterance needs that
  utterance, a resolved promise needs a pending one. Callbacks of the recognizer carry no
  guard: the component does not check anything before it handles them.
\<close>

datatype event =
    SetTopic string
  | SetDifficulty string
  | SetQuestionCount int
  | ClickStartTest
  | QuestionsFetched "VoiceQuestion list"
  | UtteranceEnd
  | TimerTick nat
  | ClickMic
  | RecognitionOnStart
  | RecognitionOnEnd
  | RecognitionOnError
  | RecognitionOnResult "(bool \<times> string) list"
  | EvaluationResolved EvalResult
  | ClickReadAloud
  | ClickRetry
  | ClickNext
  | ClickEndTest
  | ClickContinueTest
  | ClickConfirmEnd
  | ClickTakeAnother

fun handler :: "event \<Rightarrow> session \<Rightarrow> session option" where
  "handler (SetTopic t) s = (if phase s = Setup then Some (s\<lparr>topic := t\<rparr>) else None)"
| "handler (SetDifficulty d) s =
     (if phase s = Setup then Some (s\<lparr>difficulty := d\<rparr>) else None)"
| "handler (SetQuestionCount n) s =
     (if phase s = Setup then Some (s\<lparr>questionCount := n\<rparr>) else None)"
| "handler ClickStartTest s = (if phase s = Setup then Some (startTest s) else None)"
| "handler (QuestionsFetched qs) s =
     (if pendingGenerations s > 0
      then Some (startTest_resume qs (s\<lparr>pendingGenerations := pendingGenerations s - 1\<rparr>))
      else None)"
| "handler UtteranceEnd s =
     (case utterance s of
        None \<Rightarrow> None
      | Some listening \<Rightarrow> Some (startTimer listening (s\<lparr>utterance := None\<rparr>)))"
| "handler (TimerTick i) s =
     (case map_of (intervals s) i of
        None \<Rightarrow> None
      | Some listening \<Rightarrow> Some (interval_callback listening s))"
| "handler ClickMic s = (if mic_enabled s then Some (toggleListening s) else None)"
| "handler RecognitionOnStart s = Some (s\<lparr>isListening := True\<rparr>)"
| "handler RecognitionOnEnd s = Some (s\<lparr>isListening := False\<rparr>)"
| "handler RecognitionOnError s = Some (s\<lparr>isListening := False\<rparr>)"
| "handler (RecognitionOnResult results) s = Some (recognition_onresult results s)"
| "handler (EvaluationResolved result) s =
     (if pendingEvaluations s > 0
      then Some (handleAnswerSubmission_resume result
                   (s\<lparr>pendingEvaluations := pendingEvaluations s - 1\<rparr>))
      else None)"
| "handler ClickReadAloud s =
     (if question_screen s \<and> currentQuestionIndex s < length (questions s)
      then Some (speak (question (questions s ! currentQuestionIndex s)) s)
      else None)"
| "handler ClickRetry s = (if retry_visible s then Some (retryQuestion s) else None)"
| "handler ClickNext s = (if next_visible s then Some (goToNextQuestion s) else None)"
| "handler ClickEndTest s =
     (if question_screen s then Some (s\<lparr>showConfirmEndModal := True\<rparr>) else None)"
| "handler ClickContinueTest s =
     (if question_screen s \<and> showConfirmEndModal s
      then Some (s\<lparr>showConfirmEndModal := False\<rparr>) else None)"
| "handler ClickConfirmEnd s =
     (if question_screen s \<and> showConfirmEndModal s then Some (endTest s) else None)"
| "handler ClickTakeAnother s =
     (if phase s = Finished then Some (resetToSetup s) else None)"

definition step :: "event \<Rightarrow> session \<Rightarrow> session option" where
  "step e s = map_option (auto_speak s) (handler e s)"

fun run :: "event list \<Rightarrow> session \<Rightarrow> session option" where
  "run [] s = Some s"
| "run (e # es) s = (case step e s of None \<Rightarrow> None | Some s' \<Rightarrow> run es s')"

subsection \<open>The timer's invariant\<close>

text \<open>
  At most one interval is live, it is the one \<open>timerIntervalRef\<close> holds, and identifiers
  are positive (so the truthiness test of \<open>stopTimer\<close> never mistakes a live timer for
  none).
\<close>

definition timer_ok :: "(nat \<times> bool) list \<Rightarrow> nat \<Rightarrow> nat option \<Rightarrow> bool" where
  "timer_ok live next ref =
     (length live \<le> 1 \<and> 0 < next \<and>
      (case ref of None \<Rightarrow> True | Some i \<Rightarrow> 0 < i) \<and>
      list_all (\<lambda>t. ref = Some (fst t)) live)"

definition timer_inv :: "session \<Rightarrow> bool" where
  "timer_inv s = timer_ok (intervals s) (nextIntervalId s) (timerIntervalRef s)"

subsection \<open>Observations and sample sessions\<close>

text \<open>What a question's attempt has committed: the score and the evaluation result.\<close>

definition committed :: "session \<Rightarrow> int \<times> EvalResult option" where
  "committed s = (score s, evaluationResult s)"

text \<open>The two numbers of the final screen: \<open>{score} / {questions.length}\<close>.\<close>

definition scoreboard :: "session \<Rightarrow> int \<times> nat" where
  "scoreboard s = (score s, length (questions s))"

text \<open>\<open>finalTranscript\<close> as \<open>recognition.onresult\<close> computes it.\<close>

definition final_of :: "(bool \<times> string) list \<Rightarrow> string" where
  "final_of results = concat (map snd (filter fst results))"

definition interim_of :: "(bool \<times> string) list \<Rightarrow> string" where
  "interim_of results = concat (map snd (filter (\<lambda>r. \<not> fst r) results))"




text \<open>The events that begin a new session or clear the old one.\<close>

fun resets :: "event \<Rightarrow> bool" where
  "resets (QuestionsFetched qs) = True"
| "resets ClickTakeAnother = True"
| "resets e = False"

definition two_plus_two :: VoiceQuestion where
  "two_plus_two = \<lparr>question = ''What is 2 plus 2?'', answer = ''4''\<rparr>"

definition capital_of_france :: VoiceQuestion where
  "capital_of_france = \<lparr>question = ''What is the capital of France?'', answer = ''Paris''\<rparr>"

definition correct_result :: EvalResult where
  "correct_result = \<lparr>isCorrect = True, feedback = ''Correct!''\<rparr>"

definition wrong_result :: EvalResult where
  "wrong_result = \<lparr>isCorrect = False, feedback = ''Not quite.''\<rparr>"

text \<open>
  A test of two questions is started and the first question is read out; when the
  utterance ends the timer starts (interval 1).
\<close>

definition question_read :: "event list" where
  "question_read =
     [SetQuestionCount 2, ClickStartTest, QuestionsFetched [two_plus_two, capital_of_france],
      UtteranceEnd]"

text \<open>
  The user taps the microphone and the recognizer starts: the timer runs and the
  recognizer listens. \<open>isListening\<close> has changed, so the auto-speak effect reads the
  question again; at the end of that utterance the timer restarts (interval 2, closed
  over \<open>isListening = true\<close>).
\<close>

definition mid_question :: "event list" where
  "mid_question = question_read @ [ClickMic, RecognitionOnStart]"

definition listening_started :: "event list" where
  "listening_started = mid_question @ [UtteranceEnd]"



text \<open>Thirty ticks later the time is up.\<close>

definition timed_out :: "event list" where
  "timed_out = listening_started @ replicate 30 (TimerTick 2)"

text \<open>Twenty seconds in, the user gives a wrong answer: ten seconds remain.\<close>

definition wrong_answer :: "event list" where
  "wrong_answer =
     listening_started @ replicate 20 (TimerTick 2) @
     [RecognitionOnResult [(True, ''5'')], RecognitionOnEnd, EvaluationResolved wrong_result]"

text \<open>The user answers the first question correctly.\<close>

definition first_answer :: "event list" where
  "first_answer =
     listening_started @
     [RecognitionOnResult [(True, ''4'')], RecognitionOnEnd, EvaluationResolved correct_result]"

text \<open>
  With a result on screen the user has the question read again, which starts the timer
  (interval \<open>k\<close>) when the utterance ends, and lets it run out: the result becomes the
  time's-up result and \<open>timeLeft\<close> is 0. Reading the question once more restarts the timer,
  so \<open>timeLeft\<close> is 30 and the retry button appears. The user retries and answers
  correctly again.
\<close>

definition answer_again :: "nat \<Rightarrow> event list" where
  "answer_again k =
     [ClickReadAloud, UtteranceEnd] @ replicate 30 (TimerTick k) @
     [ClickReadAloud, UtteranceEnd, ClickRetry, RecognitionOnStart,
      RecognitionOnResult [(True, ''4'')], RecognitionOnEnd, EvaluationResolved correct_result]"

section \<open>Facts about the string functions\<close>

lemma startsWith_iff: "startsWith s t \<longleftrightarrow> (\<exists>post. s = t @ post)"
  by (induction s t rule: startsWith.induct) auto

lemma includes_iff: "includes_str s t \<longleftrightarrow> (\<exists>pre post. s = pre @ t @ post)"
proof (induction s)
  case Nil
  show ?case by auto
next
  case (Cons d s)
  show ?case
  proof
    assume "includes_str (d # s) t"
    then consider "startsWith (d # s) t" | "includes_str s t" by auto
    then show "\<exists>pre post. d # s = pre @ t @ post"
    proof cases
      case 1
      then obtain post where "d # s = t @ post" by (auto simp: startsWith_iff)
      then have "d # s = [] @ t @ post" by simp
      then show ?thesis by blast
    next
      case 2
      then obtain pre post where "s = pre @ t @ post" using Cons.IH by auto
      then have "d # s = (d # pre) @ t @ post" by simp
      then show ?thesis by blast
    qed
  next
    assume "\<exists>pre post. d # s = pre @ t @ post"
    then obtain pre post where eq: "d # s = pre @ t @ post" by blast
    show "includes_str (d # s) t"
    proof (cases pre)
      case Nil
      with eq have "startsWith (d # s) t" by (auto simp: startsWith_iff)
      then show ?thesis by simp
    next
      case (Cons e pre')
      with eq have "s = pre' @ t @ post" by simp
      then have "includes_str s t" using Cons.IH by blast
      then show ?thesis by simp
    qed
  qed
qed

lemma includes_fallback_feedback: "includes_str (fallback_feedback a) a"
  unfolding includes_iff fallback_feedback_def by blast

section \<open>Facts about the timer\<close>

lemma timer_inv_initial: "timer_inv (initial supported)"
  by (simp add: timer_inv_def timer_ok_def initial_def)

lemma timer_inv_emit [simp]: "timer_inv (emit e s) = timer_inv s"
  by (simp add: timer_inv_def emit_def)

lemma timer_inv_setPhase [simp]: "timer_inv (setPhase p s) = timer_inv s"
  by (simp add: timer_inv_def setPhase_def emit_def)

lemma timer_inv_synthesis_cancel [simp]: "timer_inv (synthesis_cancel s) = timer_inv s"
  by (simp add: timer_inv_def synthesis_cancel_def emit_def)

lemma timer_inv_speak [simp]: "timer_inv (speak text s) = timer_inv s"
  by (simp add: timer_inv_def speak_def synthesis_cancel_def emit_def)

lemma stopTimer_stopped:
  "timer_inv s \<Longrightarrow> intervals (stopTimer s) = [] \<and> timerIntervalRef (stopTimer s) = None"
  by (cases "intervals s"; cases "timerIntervalRef s")
     (auto simp: timer_inv_def timer_ok_def stopTimer_def emit_def)

lemma stopTimer_next: "nextIntervalId (stopTimer s) = nextIntervalId s"
  by (simp add: stopTimer_def emit_def split: option.splits)

lemma timer_inv_stopTimer: "timer_inv s \<Longrightarrow> timer_inv (stopTimer s)"
  using stopTimer_stopped [of s] stopTimer_next [of s]
  by (simp add: timer_inv_def timer_ok_def)

lemma startTimer_running:
  "timer_inv s \<Longrightarrow>
     intervals (startTimer listening s) = [(nextIntervalId s, listening)]
     \<and> timerIntervalRef (startTimer listening s) = Some (nextIntervalId s)
     \<and> nextIntervalId (startTimer listening s) = Suc (nextIntervalId s)"
  using stopTimer_stopped [of s] stopTimer_next [of s]
  by (simp add: startTimer_def Let_def emit_def)

lemma timer_inv_startTimer: "timer_inv s \<Longrightarrow> timer_inv (startTimer listening s)"
  using startTimer_running [of s listening]
  by (simp add: timer_inv_def timer_ok_def)

lemma timer_inv_handleTimeUp: "timer_inv s \<Longrightarrow> timer_inv (handleTimeUp listening s)"
  using timer_inv_stopTimer [of s]
  by (simp add: handleTimeUp_def Let_def) (simp add: timer_inv_def setPhase_def emit_def)

lemma timer_inv_interval_callback:
  "timer_inv s \<Longrightarrow> timer_inv (interval_callback listening s)"
  using timer_inv_handleTimeUp [of s listening]
  by (simp add: interval_callback_def timer_inv_def)

lemma timer_inv_handleAnswerSubmission:
  "timer_inv s \<Longrightarrow> timer_inv (handleAnswerSubmission spoken s)"
  using timer_inv_stopTimer [of s]
  by (simp add: handleAnswerSubmission_def Let_def) (simp add: timer_inv_def setPhase_def emit_def)

lemma timer_inv_handleAnswerSubmission_resume:
  "timer_inv s \<Longrightarrow> timer_inv (handleAnswerSubmission_resume result s)"
  by (simp add: handleAnswerSubmission_resume_def Let_def) (simp add: timer_inv_def)

lemma timer_inv_recognition_onresult:
  assumes "timer_inv s"
  shows "timer_inv (recognition_onresult results s)"
proof -
  have upd: "timer_inv (s\<lparr>transcript := t, isTranscriptFinal := b\<rparr>)" for t b
    using assms by (simp add: timer_inv_def)
  show ?thesis
    by (simp add: recognition_onresult_def Let_def upd timer_inv_handleAnswerSubmission)
qed

lemma timer_inv_startTest: "timer_inv s \<Longrightarrow> timer_inv (startTest s)"
  by (simp add: startTest_def) (simp add: timer_inv_def setPhase_def emit_def)

lemma timer_inv_startTest_resume: "timer_inv s \<Longrightarrow> timer_inv (startTest_resume qs s)"
  by (simp add: startTest_resume_def) (simp add: timer_inv_def)

lemma timer_inv_toggleListening: "timer_inv s \<Longrightarrow> timer_inv (toggleListening s)"
  by (simp add: toggleListening_def) (simp add: timer_inv_def)

lemma timer_inv_cleared:
  "timer_inv s \<Longrightarrow>
     timer_inv (s\<lparr>transcript := [], isTranscriptFinal := False, evaluationResult := None\<rparr>)"
  by (simp add: timer_inv_def)

lemma timer_inv_goToNextQuestion: "timer_inv s \<Longrightarrow> timer_inv (goToNextQuestion s)"
  using timer_inv_stopTimer [OF timer_inv_cleared, of s]
  by (simp add: goToNextQuestion_def Let_def) (simp add: timer_inv_def)

lemma timer_inv_retryQuestion: "timer_inv s \<Longrightarrow> timer_inv (retryQuestion s)"
  using timer_inv_startTimer [OF timer_inv_cleared, of s]
  by (simp add: retryQuestion_def Let_def)

lemma timer_inv_endTest: "timer_inv s \<Longrightarrow> timer_inv (endTest s)"
  using timer_inv_stopTimer [of s]
  by (simp add: endTest_def) (simp add: timer_inv_def)

lemma timer_inv_resetToSetup:
  assumes "timer_inv s"
  shows "timer_inv (resetToSetup s)"
proof -
  have "timer_inv (setPhase Setup (stopTimer (synthesis_cancel s)))"
    using assms by (simp add: timer_inv_stopTimer)
  then show ?thesis
    by (simp add: resetToSetup_def Let_def) (simp add: timer_inv_def setPhase_def emit_def)
qed

lemma timer_inv_field_updates:
  "timer_inv (s\<lparr>topic := t\<rparr>) = timer_inv s"
  "timer_inv (s\<lparr>difficulty := d\<rparr>) = timer_inv s"
  "timer_inv (s\<lparr>questionCount := n\<rparr>) = timer_inv s"
  "timer_inv (s\<lparr>isListening := b\<rparr>) = timer_inv s"
  "timer_inv (s\<lparr>showConfirmEndModal := b\<rparr>) = timer_inv s"
  "timer_inv (s\<lparr>utterance := u\<rparr>) = timer_inv s"
  "timer_inv (s\<lparr>pendingGenerations := k\<rparr>) = timer_inv s"
  "timer_inv (s\<lparr>pendingEvaluations := k\<rparr>) = timer_inv s"
  by (simp_all add: timer_inv_def)

lemma timer_inv_handler: "timer_inv s \<Longrightarrow> handler e s = Some s' \<Longrightarrow> timer_inv s'"
  by (cases e)
     (auto simp: timer_inv_field_updates timer_inv_startTest timer_inv_startTest_resume
        timer_inv_startTimer timer_inv_interval_callback timer_inv_toggleListening
        timer_inv_recognition_onresult timer_inv_handleAnswerSubmission_resume
        timer_inv_retryQuestion timer_inv_goToNextQuestion timer_inv_endTest
        timer_inv_resetToSetup
        split: if_splits option.splits)

lemma timer_inv_step: "timer_inv s \<Longrightarrow> step e s = Some s' \<Longrightarrow> timer_inv s'"
  by (auto simp: step_def auto_speak_def dest: timer_inv_handler)

lemma timer_inv_run: "timer_inv s \<Longrightarrow> run evs s = Some s' \<Longrightarrow> timer_inv s'"
  by (induction evs arbitrary: s) (auto split: option.splits dest: timer_inv_step)

lemma timer_inv_reachable: "run evs (initial supported) = Some s \<Longrightarrow> timer_inv s"
  using timer_inv_run [OF timer_inv_initial] .

lemma stopTimer_twice: "stopTimer (stopTimer s) = stopTimer s"
  by (simp add: stopTimer_def emit_def split: option.splits)

lemma stopTimer_funpow: "(stopTimer ^^ Suc n) s = stopTimer s"
  by (induction n) (simp_all add: stopTimer_twice)

lemma stopTimer_only_timer:
  "(stopTimer s)\<lparr>intervals := intervals s, timerIntervalRef := timerIntervalRef s,
      trace := trace s\<rparr> = s"
  by (simp add: stopTimer_def emit_def split: option.splits)

lemma stopTimer_trace:
  "trace (stopTimer s) = trace s \<or> (\<exists>i. trace (stopTimer s) = trace s @ [ClearInterval i])"
  by (simp add: stopTimer_def emit_def split: option.splits)

lemma stopTimer_fields:
  "phase (stopTimer s) = phase s"
  "score (stopTimer s) = score s"
  "evaluationResult (stopTimer s) = evaluationResult s"
  "questions (stopTimer s) = questions s"
  "currentQuestionIndex (stopTimer s) = currentQuestionIndex s"
  "pendingEvaluations (stopTimer s) = pendingEvaluations s"
  "showConfirmEndModal (stopTimer s) = showConfirmEndModal s"
  "utterance (stopTimer s) = utterance s"
  "isListening (stopTimer s) = isListening s"
  "questionsVersion (stopTimer s) = questionsVersion s"
  by (simp_all add: stopTimer_def emit_def split: option.splits)

lemma no_tick_without_interval: "intervals s = [] \<Longrightarrow> step (TimerTick i) s = None"
  by (simp add: step_def)



section \<open>Facts about evaluator calls and the score\<close>

lemma recognition_onresult_empty:
  "final_of results = [] \<Longrightarrow>
     recognition_onresult results s
       = s\<lparr>transcript := interim_of results, isTranscriptFinal := False\<rparr>"
  by (simp add: recognition_onresult_def final_of_def interim_of_def truthy_def Let_def)

lemma recognition_onresult_final:
  "truthy (final_of results) \<Longrightarrow>
     recognition_onresult results s
       = handleAnswerSubmission (trim (final_of results))
           (s\<lparr>transcript := final_of results, isTranscriptFinal := True\<rparr>)"
  by (simp add: recognition_onresult_def final_of_def Let_def)


lemmas handler_defs =
  emit_def setPhase_def stopTimer_def handleTimeUp_def startTimer_def interval_callback_def
  handleAnswerSubmission_resume_def
  synthesis_cancel_def speak_def startTest_def startTest_resume_def toggleListening_def
  goToNextQuestion_def retryQuestion_def endTest_def resetToSetup_def





text \<open>
  What does hold of the score: an event leaves it alone, or it is a correct answer of the
  evaluator and adds one, or it begins or clears a session and sets the score to 0. So
  the score is never negative, and it does not decrease while a session lasts.
\<close>

lemma score_handler:
  "handler e s = Some s' \<Longrightarrow>
     score s' = score s
     \<or> (\<exists>r. e = EvaluationResolved r \<and> isCorrect r \<and> score s' = score s + 1)
     \<or> (resets e \<and> score s' = 0)"
  by (cases e)
     (auto simp: handler_defs handleAnswerSubmission_def recognition_onresult_def Let_def
        split: if_splits option.splits)

lemma score_auto_speak: "score (auto_speak s s') = score s'"
  by (simp add: auto_speak_def speak_def synthesis_cancel_def emit_def)

lemma score_step:
  "step e s = Some s' \<Longrightarrow>
     score s' = score s
     \<or> (\<exists>r. e = EvaluationResolved r \<and> isCorrect r \<and> score s' = score s + 1)
     \<or> (resets e \<and> score s' = 0)"
  using score_handler [of e s] by (auto simp: step_def score_auto_speak)

lemma score_nonnegative_run: "0 \<le> score s \<Longrightarrow> run evs s = Some s' \<Longrightarrow> 0 \<le> score s'"
proof (induction evs arbitrary: s)
  case Nil
  then show ?case by simp
next
  case (Cons e evs)
  from Cons.prems(2) obtain t where t: "step e s = Some t" and rest: "run evs t = Some s'"
    by (auto split: option.splits)
  have "0 \<le> score t"
    using score_step [OF t] Cons.prems(1) by auto
  then show ?case
    using Cons.IH rest by blast
qed

lemma score_nonnegative: "run evs (initial supported) = Some s \<Longrightarrow> 0 \<le> score s"
  using score_nonnegative_run [of "initial supported" evs s] by (simp add: initial_def)

lemma score_never_decreases:
  "run evs s = Some s' \<Longrightarrow> list_all (\<lambda>e. \<not> resets e) evs \<Longrightarrow> score s \<le> score s'"
proof (induction evs arbitrary: s)
  case Nil
  then show ?case by simp
next
  case (Cons e evs)
  from Cons.prems(1) obtain t where t: "step e s = Some t" and rest: "run evs t = Some s'"
    by (auto split: option.splits)
  have "score s \<le> score t"
    using score_step [OF t] Cons.prems(2) by auto
  moreover have "score t \<le> score s'"
    using Cons.IH [OF rest] Cons.prems(2) by simp
  ultimately show ?case
    by simp
qed

section \<open>The timer: stopping, restarting, running out\<close>

text \<open>
  C9. In every state a session can reach: stopping the timer any number of times in a row
  is the same as stopping it once, and stopping a timer that is not running changes
  nothing; stopping touches nothing but the timer (so it never runs the time-out
  callback) and logs at most the one \<open>clearInterval\<close>; after a stop no interval is live,
  so no tick and no time-out can follow; at most one interval is ever live, and after
  \<open>startTimer\<close> the only live interval is the new one, the earlier one having been
  cleared.
\<close>

theorem timer_stop_start:
  assumes "run evs (initial supported) = Some s"
  shows "(stopTimer ^^ Suc n) s = stopTimer s
       \<and> (timerIntervalRef s = None \<longrightarrow> stopTimer s = s)
       \<and> (stopTimer s)\<lparr>intervals := intervals s, timerIntervalRef := timerIntervalRef s,
             trace := trace s\<rparr> = s
       \<and> (trace (stopTimer s) = trace s
            \<or> (\<exists>i. trace (stopTimer s) = trace s @ [ClearInterval i]))
       \<and> intervals (stopTimer s) = []
       \<and> (\<forall>i. step (TimerTick i) (stopTimer s) = None)
       \<and> length (intervals s) \<le> 1
       \<and> intervals (startTimer listening s) = [(nextIntervalId s, listening)]
       \<and> (\<forall>i. step (TimerTick i) (startTimer listening s) \<noteq> None \<longleftrightarrow> i = nextIntervalId s)"
proof -
  have inv: "timer_inv s"
    using timer_inv_reachable [OF assms] .
  have stopped: "intervals (stopTimer s) = []"
    using stopTimer_stopped [OF inv] by simp
  have started: "intervals (startTimer listening s) = [(nextIntervalId s, listening)]"
    using startTimer_running [OF inv] by simp
  have one: "length (intervals s) \<le> 1"
    using inv by (simp add: timer_inv_def timer_ok_def)
  have safe: "timerIntervalRef s = None \<longrightarrow> stopTimer s = s"
    by (simp add: stopTimer_def)
  have ticks: "step (TimerTick i) (startTimer listening s) \<noteq> None \<longleftrightarrow> i = nextIntervalId s"
    for i
    by (simp add: step_def started)
  show ?thesis
    using stopTimer_funpow [of n s] safe stopTimer_only_timer [of s] stopTimer_trace [of s]
      stopped no_tick_without_interval [OF stopped] one started ticks
    by blast
qed

theorem timer_stop_start_witness:
  "\<exists>s. run listening_started (initial True) = Some s
       \<and> intervals s = [(2, True)]
       \<and> (stopTimer ^^ 3) s = stopTimer s
       \<and> intervals (stopTimer s) = []
       \<and> step (TimerTick 2) (stopTimer s) = None
       \<and> intervals (startTimer False s) = [(3, False)]"
proof -
  have "run listening_started (initial True) \<noteq> None"
    by code_simp
  then obtain s where r: "run listening_started (initial True) = Some s"
    by auto
  have "intervals (the (run listening_started (initial True))) = [(2, True)]"
    and "nextIntervalId (the (run listening_started (initial True))) = 3"
    by code_simp+
  then have live: "intervals s = [(2, True)]" and fresh: "nextIntervalId s = 3"
    by (simp_all add: r)
  show ?thesis
    using r live fresh timer_stop_start [OF r, of 2 False]
    by (auto simp: numeral_3_eq_3)
qed




section \<open>The evaluator's fallback and the missing key\<close>

text \<open>
  C2. With a key configured and the external call failing, the result is decided by the
  local check alone: correct with the feedback \<open>Correct!\<close> exactly when the lower-cased
  expected answer occurs inside the lower-cased spoken answer, incorrect with a feedback
  that contains the expected answer otherwise.
\<close>

theorem evaluateSpokenAnswer_fallback:
  assumes "\<not> no_key API_KEY"
    and "generateContent (evaluation_prompt q a spoken) = None"
  shows "((\<exists>pre post. toLowerCase spoken = pre @ toLowerCase a @ post) \<longrightarrow>
            evaluateSpokenAnswer API_KEY generateContent q a spoken
              = \<lparr>isCorrect = True, feedback = ''Correct!''\<rparr>)
       \<and> (\<not> (\<exists>pre post. toLowerCase spoken = pre @ toLowerCase a @ post) \<longrightarrow>
            evaluateSpokenAnswer API_KEY generateContent q a spoken
              = \<lparr>isCorrect = False, feedback = fallback_feedback a\<rparr>
            \<and> includes_str (feedback (evaluateSpokenAnswer API_KEY generateContent q a spoken)) a)"
  using assms
  by (simp add: evaluateSpokenAnswer_def includes_iff [symmetric] includes_fallback_feedback)

theorem evaluateSpokenAnswer_fallback_witness:
  "\<not> no_key (Some ''key'')
   \<and> evaluateSpokenAnswer (Some ''key'') (\<lambda>p. None) ''What is the capital of France?''
        ''Paris'' ''I think it's paris'' = \<lparr>isCorrect = True, feedback = ''Correct!''\<rparr>
   \<and> evaluateSpokenAnswer (Some ''key'') (\<lambda>p. None) ''What is the capital of France?''
        ''Paris'' ''London'' = \<lparr>isCorrect = False, feedback = fallback_feedback ''Paris''\<rparr>"
proof -
  have key: "\<not> no_key (Some ''key'')"
    by (simp add: no_key_def truthy_def)
  have yes: "\<exists>pre post. toLowerCase ''I think it's paris'' = pre @ toLowerCase ''Paris'' @ post"
    unfolding includes_iff [symmetric] by code_simp
  have no: "\<not> (\<exists>pre post. toLowerCase ''London'' = pre @ toLowerCase ''Paris'' @ post)"
    unfolding includes_iff [symmetric] by code_simp
  show ?thesis
    using key yes no
      evaluateSpokenAnswer_fallback [OF key, of "\<lambda>p. None"
        "''What is the capital of France?''" "''Paris''" "''I think it's paris''"]
      evaluateSpokenAnswer_fallback [OF key, of "\<lambda>p. None"
        "''What is the capital of France?''" "''Paris''" "''London''"]
    by blast
qed

text \<open>
  C10. Without a key the result is the fixed "unavailable" answer, whatever the question,
  the expected answer, the spoken answer and the service are: neither the service nor the
  substring check has a say, so no answer is marked correct.
\<close>

theorem evaluateSpokenAnswer_no_key:
  "no_key API_KEY \<Longrightarrow>
     evaluateSpokenAnswer API_KEY generateContent q a spoken
       = \<lparr>isCorrect = False, feedback = ''AI evaluation is unavailable.''\<rparr>"
  by (simp add: evaluateSpokenAnswer_def unavailable_def)

theorem evaluateSpokenAnswer_no_key_witness:
  "no_key None \<and> includes_str (toLowerCase ''the answer is Paris'') (toLowerCase ''Paris'')
   \<and> evaluateSpokenAnswer None (\<lambda>p. Some \<lparr>isCorrect = True, feedback = ''Yes''\<rparr>)
        ''What is the capital of France?'' ''Paris'' ''the answer is Paris''
       = \<lparr>isCorrect = False, feedback = ''AI evaluation is unavailable.''\<rparr>"
proof -
  have key: "no_key None"
    by (simp add: no_key_def)
  have inc: "includes_str (toLowerCase ''the answer is Paris'') (toLowerCase ''Paris'')"
    by code_simp
  show ?thesis
    using key inc evaluateSpokenAnswer_no_key [OF key] by simp
qed

section \<open>Starting a test that cannot be generated\<close>

lemma generateVoiceTestQuestions_failed:
  "no_key key \<or> gen (t, d, n) = None \<or> gen (t, d, n) = Some [] \<Longrightarrow>
     generateVoiceTestQuestions key gen t d n = []"
  by (auto simp: generateVoiceTestQuestions_def)

lemma auto_speak_silent:
  "phase s' \<noteq> InProgress \<or> evaluationResult s' \<noteq> None \<Longrightarrow> auto_speak s s' = s'"
  by (auto simp: auto_speak_def)

lemma auto_speak_unchanged: "\<not> speak_deps_changed s s' \<Longrightarrow> auto_speak s s' = s'"
  by (simp add: auto_speak_def)

text \<open>
  C8. The generator has no key, fails, or returns the empty array. In whatever state its
  answer arrives, the phase becomes \<open>setup\<close>, the failure is reported by the alert, and
  nothing else changes but the count of pending requests: questions, question index,
  score, transcript and evaluation result are untouched. When the answer follows the
  click on Start Test directly, the phase has gone to \<open>loading\<close> and back, and the state
  is the state before the click except for the trace.
\<close>

theorem startTest_failure:
  assumes failed: "no_key key \<or> gen (t, d, n) = None \<or> gen (t, d, n) = Some []"
    and fetched:
      "step (QuestionsFetched (generateVoiceTestQuestions key gen t d n)) s1 = Some s2"
  shows "phase s2 = Setup
       \<and> trace s2 = trace s1 @
            [Alert ''Failed to generate questions. Please try again.'', SetPhase Setup]
       \<and> s2 = s1\<lparr>phase := Setup, pendingGenerations := pendingGenerations s1 - 1,
                  trace := trace s2\<rparr>
       \<and> questions s2 = questions s1
       \<and> currentQuestionIndex s2 = currentQuestionIndex s1
       \<and> score s2 = score s1
       \<and> transcript s2 = transcript s1
       \<and> evaluationResult s2 = evaluationResult s1
       \<and> (\<forall>s. step ClickStartTest s = Some s1 \<longrightarrow>
             phase s = Setup \<and> phase s1 = Loading \<and> s2 = s\<lparr>trace := trace s2\<rparr>)"
proof -
  have none: "generateVoiceTestQuestions key gen t d n = []"
    using failed by (rule generateVoiceTestQuestions_failed)
  from fetched have s2: "s2 = auto_speak s1
      (startTest_resume [] (s1\<lparr>pendingGenerations := pendingGenerations s1 - 1\<rparr>))"
    by (auto simp: step_def none split: if_splits)
  have returned:
    "s2 = startTest_resume [] (s1\<lparr>pendingGenerations := pendingGenerations s1 - 1\<rparr>)"
    unfolding s2
    by (rule auto_speak_silent) (simp add: startTest_resume_def setPhase_def emit_def)
  have whole: "phase s = Setup \<and> phase s1 = Loading \<and> s2 = s\<lparr>trace := trace s2\<rparr>"
    if click: "step ClickStartTest s = Some s1" for s
  proof -
    from click have first: "phase s = Setup" and s1: "s1 = auto_speak s (startTest s)"
      by (auto simp: step_def split: if_splits)
    have loading: "s1 = startTest s"
      unfolding s1 by (rule auto_speak_silent) (simp add: startTest_def setPhase_def emit_def)
    have "s2 = s\<lparr>trace := trace s2\<rparr>"
      using first
      by (cases s)
         (simp add: returned loading startTest_resume_def startTest_def setPhase_def emit_def)
    then show ?thesis
      using first by (simp add: loading startTest_def setPhase_def emit_def)
  qed
  have here: "phase s2 = Setup
       \<and> trace s2 = trace s1 @
            [Alert ''Failed to generate questions. Please try again.'', SetPhase Setup]
       \<and> s2 = s1\<lparr>phase := Setup, pendingGenerations := pendingGenerations s1 - 1,
                  trace := trace s2\<rparr>
       \<and> questions s2 = questions s1
       \<and> currentQuestionIndex s2 = currentQuestionIndex s1
       \<and> score s2 = score s1
       \<and> transcript s2 = transcript s1
       \<and> evaluationResult s2 = evaluationResult s1"
    by (simp add: returned startTest_resume_def setPhase_def emit_def)
  show ?thesis
    using here whole by blast
qed

theorem startTest_failure_witness:
  "\<exists>s1 s2. step ClickStartTest (initial True) = Some s1
       \<and> no_key None
       \<and> step (QuestionsFetched
            (generateVoiceTestQuestions None (\<lambda>request. Some [two_plus_two])
               ''Quantitative Aptitude'' ''Medium'' 5)) s1 = Some s2
       \<and> phase s1 = Loading \<and> phase s2 = Setup
       \<and> questions s2 = []
       \<and> s2 = (initial True)\<lparr>trace := trace s2\<rparr>"
proof -
  let ?gen = "\<lambda>request :: string \<times> string \<times> int. Some [two_plus_two]"
  let ?fetched = "generateVoiceTestQuestions None ?gen ''Quantitative Aptitude'' ''Medium'' 5"
  have "step ClickStartTest (initial True) \<noteq> None"
    by code_simp
  then obtain s1 where c: "step ClickStartTest (initial True) = Some s1"
    by auto
  have "step (QuestionsFetched ?fetched) (the (step ClickStartTest (initial True))) \<noteq> None"
    by code_simp
  then obtain s2 where f: "step (QuestionsFetched ?fetched) s1 = Some s2"
    by (auto simp: c)
  have k: "no_key None"
    by (simp add: no_key_def)
  have failed: "no_key None
       \<or> ?gen (''Quantitative Aptitude'', ''Medium'', 5) = None
       \<or> ?gen (''Quantitative Aptitude'', ''Medium'', 5) = Some []"
    using k by blast
  note result = startTest_failure [OF failed f]
  from result have setup_again: "phase s2 = Setup"
    by blast
  from result c have loading: "phase s1 = Loading"
    and whole: "s2 = (initial True)\<lparr>trace := trace s2\<rparr>"
    by blast+
  have "questions ((initial True)\<lparr>trace := trace s2\<rparr>) = []"
    by (simp add: initial_def)
  then have q: "questions s2 = []"
    using whole by simp
  show ?thesis
    using c k f loading setup_again q whole by blast
qed

section \<open>Final transcripts\<close>

text \<open>
  The claim C6 fails on the code. An empty final transcript arrives while the recognizer
  listens and the timer runs: nothing is committed, the evaluation result stays absent,
  whereas the time-out commits its incorrect result.
\<close>

theorem empty_final_transcript_counterexample:
  "map_option committed
     (run (listening_started @ [RecognitionOnResult [(True, [])]]) (initial True))
     = Some (0, None)
   \<and> map_option phase
     (run (listening_started @ [RecognitionOnResult [(True, [])]]) (initial True))
     = Some InProgress
   \<and> map_option committed (run timed_out (initial True)) = Some (0, Some timeUpResult)"
  by code_simp

text \<open>
  C6, amended. An empty final transcript is never submitted to the evaluator, and nothing
  is committed for it: the handler only stores the interim text as transcript and marks
  it as not final; trace, score, evaluation result, phase, pending evaluations and the
  running timer are as before.
\<close>

theorem empty_final_transcript_ignored:
  assumes "final_of results = []"
    and "step (RecognitionOnResult results) s = Some s'"
  shows "s' = s\<lparr>transcript := interim_of results, isTranscriptFinal := False\<rparr>
       \<and> trace s' = trace s
       \<and> committed s' = committed s
       \<and> phase s' = phase s
       \<and> pendingEvaluations s' = pendingEvaluations s
       \<and> intervals s' = intervals s"
proof -
  let ?t = "s\<lparr>transcript := interim_of results, isTranscriptFinal := False\<rparr>"
  have "s' = auto_speak s ?t"
    using assms by (auto simp: step_def recognition_onresult_empty)
  moreover have "auto_speak s ?t = ?t"
    by (rule auto_speak_unchanged) (simp add: speak_deps_changed_def)
  ultimately have "s' = ?t"
    by simp
  then show ?thesis
    by (simp add: committed_def)
qed

theorem empty_final_transcript_ignored_witness:
  "\<exists>s s'. run listening_started (initial True) = Some s
       \<and> final_of [(True, []), (False, ''fo'')] = []
       \<and> step (RecognitionOnResult [(True, []), (False, ''fo'')]) s = Some s'
       \<and> transcript s' = ''fo''
       \<and> trace s' = trace s
       \<and> committed s' = committed s"
proof -
  have "run listening_started (initial True) \<noteq> None"
    by code_simp
  then obtain s where r: "run listening_started (initial True) = Some s"
    by auto
  have e: "final_of [(True, []), (False, ''fo'')] = []"
    and i: "interim_of [(True, []), (False, ''fo'')] = ''fo''"
    by (simp_all add: final_of_def interim_of_def)
  obtain s' where d: "step (RecognitionOnResult [(True, []), (False, ''fo'')]) s = Some s'"
    by (simp add: step_def)
  show ?thesis
    using r e d i empty_final_transcript_ignored [OF e d] by auto
qed

text \<open>
  The claim C1 fails on the code. The time runs out while the recognizer listens, and the
  time's-up result is committed with score 0. The final transcript that the recognizer
  then delivers is evaluated all the same: score and evaluation result change.
\<close>

theorem late_transcript_counterexample:
  "map_option committed (run timed_out (initial True)) = Some (0, Some timeUpResult)
   \<and> map_option committed
       (run (timed_out @ [RecognitionOnResult [(True, ''4'')], EvaluationResolved correct_result])
          (initial True))
     = Some (1, Some correct_result)"
  by code_simp

text \<open>
  C1, amended. After the time-out has committed its result, a final transcript that is
  not empty is still submitted for the current question: the timer is stopped, the phase
  becomes \<open>evaluating\<close> and the evaluator is called with the trimmed transcript. Score and
  evaluation result stay as the time-out left them until the evaluator answers; its
  answer then replaces the evaluation result, and the score grows by one exactly when the
  answer is correct.
\<close>

theorem late_transcript_is_evaluated:
  assumes fired: "evaluationResult s = Some timeUpResult"
    and final: "truthy (final_of results)"
    and current: "currentQuestionIndex s < length (questions s)"
    and deliver: "step (RecognitionOnResult results) s = Some s1"
    and resolve: "step (EvaluationResolved r) s1 = Some s2"
  shows "committed s1 = committed s
       \<and> phase s1 = Evaluating
       \<and> trace s1 = trace (stopTimer s) @
            [SetPhase Evaluating,
             Evaluate (question (questions s ! currentQuestionIndex s))
               (answer (questions s ! currentQuestionIndex s)) (trim (final_of results))]
       \<and> evaluationResult s2 = Some r
       \<and> score s2 = (if isCorrect r then score s + 1 else score s)
       \<and> phase s2 = InProgress"
proof -
  let ?t = "handleAnswerSubmission (trim (final_of results))
              (s\<lparr>transcript := final_of results, isTranscriptFinal := True\<rparr>)"
  have stop: "stopTimer (s\<lparr>transcript := final_of results, isTranscriptFinal := True\<rparr>)
      = (stopTimer s)\<lparr>transcript := final_of results, isTranscriptFinal := True\<rparr>"
    by (simp add: stopTimer_def emit_def split: option.splits)
  have t: "?t = (stopTimer s)\<lparr>transcript := final_of results, isTranscriptFinal := True,
       phase := Evaluating,
       pendingEvaluations := Suc (pendingEvaluations s),
       trace := trace (stopTimer s) @
            [SetPhase Evaluating,
             Evaluate (question (questions s ! currentQuestionIndex s))
               (answer (questions s ! currentQuestionIndex s)) (trim (final_of results))]\<rparr>"
    using current
    by (simp add: handleAnswerSubmission_def stop Let_def setPhase_def emit_def stopTimer_fields)
  have "s1 = auto_speak s ?t"
    using deliver final by (auto simp: step_def recognition_onresult_final)
  moreover have "auto_speak s ?t = ?t"
    by (rule auto_speak_silent) (simp add: t)
  ultimately have s1: "s1 = ?t"
    by simp
  let ?u = "handleAnswerSubmission_resume r
              (s1\<lparr>pendingEvaluations := pendingEvaluations s1 - 1\<rparr>)"
  have "s2 = auto_speak s1 ?u"
    using resolve by (auto simp: step_def split: if_splits)
  moreover have "auto_speak s1 ?u = ?u"
    by (rule auto_speak_silent)
       (simp add: handleAnswerSubmission_resume_def Let_def setPhase_def emit_def)
  ultimately have s2: "s2 = ?u"
    by simp
  show ?thesis
    using fired
    by (simp add: s2 handleAnswerSubmission_resume_def Let_def setPhase_def emit_def
          s1 t committed_def stopTimer_fields)
qed

theorem late_transcript_is_evaluated_witness:
  "\<exists>s s1 s2. run timed_out (initial True) = Some s
       \<and> evaluationResult s = Some timeUpResult
       \<and> truthy (final_of [(True, ''4'')])
       \<and> currentQuestionIndex s < length (questions s)
       \<and> step (RecognitionOnResult [(True, ''4'')]) s = Some s1
       \<and> step (EvaluationResolved correct_result) s1 = Some s2
       \<and> committed s1 = committed s
       \<and> evaluationResult s2 = Some correct_result
       \<and> score s2 = score s + 1"
proof -
  have "run timed_out (initial True) \<noteq> None"
    by code_simp
  then obtain s where r: "run timed_out (initial True) = Some s"
    by auto
  have "evaluationResult (the (run timed_out (initial True))) = Some timeUpResult"
    and "currentQuestionIndex (the (run timed_out (initial True)))
           < length (questions (the (run timed_out (initial True))))"
    by code_simp+
  then have fired: "evaluationResult s = Some timeUpResult"
    and current: "currentQuestionIndex s < length (questions s)"
    by (simp_all add: r)
  have final: "truthy (final_of [(True, ''4'')])"
    by (simp add: truthy_def final_of_def)
  obtain s1 where d: "step (RecognitionOnResult [(True, ''4'')]) s = Some s1"
    by (simp add: step_def)
  have pending: "0 < pendingEvaluations s1"
    using d current final
    by (auto simp: step_def recognition_onresult_final handleAnswerSubmission_def Let_def
          setPhase_def emit_def stopTimer_fields auto_speak_def speak_def synthesis_cancel_def)
  then obtain s2 where e: "step (EvaluationResolved correct_result) s1 = Some s2"
    by (simp add: step_def)
  have c: "isCorrect correct_result"
    by (simp add: correct_result_def)
  show ?thesis
    using r fired final current d e c late_transcript_is_evaluated [OF fired final current d e]
    by auto
qed

section \<open>Ending the test\<close>







section \<open>Retrying a question\<close>

lemma startTimer_fields:
  "phase (startTimer c s) = phase s"
  "questions (startTimer c s) = questions s"
  "questionsVersion (startTimer c s) = questionsVersion s"
  "currentQuestionIndex (startTimer c s) = currentQuestionIndex s"
  "isListening (startTimer c s) = isListening s"
  "evaluationResult (startTimer c s) = evaluationResult s"
  "transcript (startTimer c s) = transcript s"
  "recognitionRef (startTimer c s) = recognitionRef s"
  "score (startTimer c s) = score s"
  "timeLeft (startTimer c s) = QUESTION_TIME_LIMIT"
  by (simp_all add: startTimer_def Let_def emit_def stopTimer_def split: option.splits)

lemma retryQuestion_fields:
  "phase (retryQuestion s) = phase s"
  "questions (retryQuestion s) = questions s"
  "questionsVersion (retryQuestion s) = questionsVersion s"
  "currentQuestionIndex (retryQuestion s) = currentQuestionIndex s"
  "isListening (retryQuestion s) = isListening s"
  "evaluationResult (retryQuestion s) = None"
  "transcript (retryQuestion s) = []"
  "score (retryQuestion s) = score s"
  "timeLeft (retryQuestion s) = QUESTION_TIME_LIMIT"
  by (simp_all add: retryQuestion_def Let_def emit_def startTimer_fields)

lemma retryQuestion_trace:
  "\<exists>stop i. trace (retryQuestion s)
      = trace s @ stop @ [SetInterval i]
          @ (if recognitionRef s \<and> \<not> isListening s then [RecognitionStart] else [])
      \<and> set stop \<subseteq> range ClearInterval"
proof (cases "timerIntervalRef s")
  case None
  then have "trace (retryQuestion s)
      = trace s @ [] @ [SetInterval (nextIntervalId s)]
          @ (if recognitionRef s \<and> \<not> isListening s then [RecognitionStart] else [])"
    by (simp add: retryQuestion_def startTimer_def stopTimer_def Let_def emit_def)
  then show ?thesis
    by (metis empty_set empty_subsetI)
next
  case (Some j)
  show ?thesis
  proof (cases "j = 0")
    case True
    with Some have "trace (retryQuestion s)
        = trace s @ [] @ [SetInterval (nextIntervalId s)]
            @ (if recognitionRef s \<and> \<not> isListening s then [RecognitionStart] else [])"
      by (simp add: retryQuestion_def startTimer_def stopTimer_def Let_def emit_def)
    then show ?thesis
      by (metis empty_set empty_subsetI)
  next
    case False
    with Some have "trace (retryQuestion s)
        = trace s @ [ClearInterval j] @ [SetInterval (nextIntervalId s)]
            @ (if recognitionRef s \<and> \<not> isListening s then [RecognitionStart] else [])"
      by (simp add: retryQuestion_def startTimer_def stopTimer_def Let_def emit_def)
    moreover have "set [ClearInterval j] \<subseteq> range ClearInterval"
      by simp
    ultimately show ?thesis
      by blast
  qed
qed

text \<open>
  C5 fails on the code in its last part. Whenever the retry button is on screen in phase
  \<open>in-progress\<close> with a current question, the last result is incorrect and time remains;
  the click clears transcript and evaluation result, sets the remaining time to the full
  30 seconds and keeps the question index, and \<open>retryQuestion\<close> itself logs only the timer
  restart and, unless the recognizer is listening already, its start. But the cleared
  evaluation result is a dependency of the auto-speak effect, whose condition now holds:
  the question is spoken again, and the end of that utterance will restart the timer
  once more.
\<close>

theorem retry_speaks_question_again:
  assumes "retry_visible s" and "phase s = InProgress"
    and "currentQuestionIndex s < length (questions s)"
  shows "(\<exists>r. evaluationResult s = Some r \<and> \<not> isCorrect r) \<and> 0 < timeLeft s
       \<and> (\<exists>s'. step ClickRetry s = Some s'
            \<and> transcript s' = [] \<and> evaluationResult s' = None
            \<and> timeLeft s' = QUESTION_TIME_LIMIT
            \<and> currentQuestionIndex s' = currentQuestionIndex s
            \<and> utterance s' = Some (isListening s)
            \<and> trace s' = trace (retryQuestion s) @
                 [SynthesisCancel,
                  SynthesisSpeak (question (questions s ! currentQuestionIndex s))])
       \<and> (\<exists>stop i. trace (retryQuestion s)
              = trace s @ stop @ [SetInterval i]
                  @ (if recognitionRef s \<and> \<not> isListening s then [RecognitionStart] else [])
            \<and> set stop \<subseteq> range ClearInterval)"
proof -
  from assms(1) have permitted:
    "(\<exists>r. evaluationResult s = Some r \<and> \<not> isCorrect r) \<and> 0 < timeLeft s"
    by (auto simp: retry_visible_def split: option.splits)
  from assms(1) have shown: "evaluationResult s \<noteq> None"
    by (auto simp: retry_visible_def split: option.splits)
  have changed: "speak_deps_changed s (retryQuestion s)"
    using shown by (simp add: speak_deps_changed_def retryQuestion_fields)
  have spoken: "auto_speak s (retryQuestion s)
      = speak (question (questions s ! currentQuestionIndex s)) (retryQuestion s)"
    using changed assms(2,3) by (auto simp: auto_speak_def retryQuestion_fields)
  have "step ClickRetry s = Some (speak (question (questions s ! currentQuestionIndex s))
      (retryQuestion s))"
    using assms(1) by (simp add: step_def spoken)
  then have "\<exists>s'. step ClickRetry s = Some s'
       \<and> transcript s' = [] \<and> evaluationResult s' = None
       \<and> timeLeft s' = QUESTION_TIME_LIMIT
       \<and> currentQuestionIndex s' = currentQuestionIndex s
       \<and> utterance s' = Some (isListening s)
       \<and> trace s' = trace (retryQuestion s) @
            [SynthesisCancel, SynthesisSpeak (question (questions s ! currentQuestionIndex s))]"
    by (simp add: speak_def synthesis_cancel_def emit_def retryQuestion_fields)
  then show ?thesis
    using permitted retryQuestion_trace [of s] by blast
qed

theorem retry_speaks_question_again_witness:
  "\<exists>s s'. run wrong_answer (initial True) = Some s
       \<and> retry_visible s \<and> phase s = InProgress \<and> timeLeft s = 10
       \<and> currentQuestionIndex s < length (questions s)
       \<and> step ClickRetry s = Some s'
       \<and> timeLeft s' = 30
       \<and> trace s' = trace (retryQuestion s) @
            [SynthesisCancel, SynthesisSpeak ''What is 2 plus 2?'']"
proof -
  have "run wrong_answer (initial True) \<noteq> None"
    by code_simp
  then obtain s where r: "run wrong_answer (initial True) = Some s"
    by auto
  have "retry_visible (the (run wrong_answer (initial True)))"
    and "phase (the (run wrong_answer (initial True))) = InProgress"
    and "timeLeft (the (run wrong_answer (initial True))) = 10"
    and "currentQuestionIndex (the (run wrong_answer (initial True)))
           < length (questions (the (run wrong_answer (initial True))))"
    and "question (questions (the (run wrong_answer (initial True)))
           ! currentQuestionIndex (the (run wrong_answer (initial True))))
         = ''What is 2 plus 2?''"
    by code_simp+
  then have v: "retry_visible s" and p: "phase s = InProgress" and ten: "timeLeft s = 10"
    and c: "currentQuestionIndex s < length (questions s)"
    and q: "question (questions s ! currentQuestionIndex s) = ''What is 2 plus 2?''"
    by (simp_all add: r)
  show ?thesis
    using r v p ten c q retry_speaks_question_again [OF v p c]
    by (auto simp: QUESTION_TIME_LIMIT_def)
qed

section \<open>The score\<close>

text \<open>
  C4 fails on the code in its upper bound. In a test of two questions the first question
  is answered correctly three times, through buttons that are on screen and with a
  recognizer that delivers one final transcript per start: the score is 3 of 2, and the
  question index is still 0.
\<close>

theorem score_exceeds_question_count:
  "map_option scoreboard
     (run (first_answer @ answer_again 3 @ answer_again 6) (initial True)) = Some (3, 2)
   \<and> map_option questionCount
     (run (first_answer @ answer_again 3 @ answer_again 6) (initial True)) = Some 2
   \<and> map_option currentQuestionIndex
     (run (first_answer @ answer_again 3 @ answer_again 6) (initial True)) = Some 0"
  by code_simp

end
